theory Spec2Isabelle
  imports Complex_Main
begin

section \<open>JavaScript values that the code computes with\<close>

text \<open>
  Timestamps (\<open>Date.now()\<close>), durations and the interpolation end points are integers,
  as the header comment of \<open>ip.js\<close> documents them. The quotient computed in \<open>work\<close> is
  a JavaScript number: division by zero does not raise, it yields \<open>NaN\<close> or an infinity.
  The value handed to the callbacks is \<open>Math.floor\<close> of a number: an integer or \<open>NaN\<close>.
\<close>

datatype jsnum = Num real | NaN | PosInf | NegInf

datatype jsval = IntV int | NaNV

text \<open>The JavaScript quotient \<open>a / b\<close> of two integers.\<close>

definition js_div :: "int \<Rightarrow> int \<Rightarrow> jsnum" where
  "js_div a b =
     (if b \<noteq> 0 then Num (real_of_int a / real_of_int b)
      else if a = 0 then NaN
      else if 0 < a then PosInf
      else NegInf)"

text \<open>\<open>null\<close> converts to the number 0 in arithmetic and in relational comparisons.\<close>

definition num_of :: "int option \<Rightarrow> int" where
  "num_of v = (case v of None \<Rightarrow> 0 | Some n \<Rightarrow> n)"

text \<open>
  \<open>instance.curr != value\<close>: \<open>curr\<close> is \<open>null\<close> or an earlier value; \<open>null\<close> differs from
  every number and \<open>NaN\<close> differs from everything, itself included.
\<close>

definition js_neq :: "jsval option \<Rightarrow> jsval \<Rightarrow> bool" where
  "js_neq c v =
     (case c of
        None \<Rightarrow> True
      | Some NaNV \<Rightarrow> True
      | Some (IntV a) \<Rightarrow> (case v of IntV b \<Rightarrow> a \<noteq> b | NaNV \<Rightarrow> True))"

section \<open>The interpolator \<open>ip\<close>\<close>

subsection \<open>Options\<close>

text \<open>
  The \<open>repeat\<close> option is a boolean, a number, or anything else; \<open>reset\<close> tells them
  apart with \<open>typeof\<close>.
\<close>

datatype repeat_opt = RBool bool | RNum int | ROther

text \<open>
  The callbacks \<open>each\<close>, \<open>update\<close> and \<open>end\<close> are \<open>null\<close> or functions of the caller; the
  model records whether each one is configured, and every invocation is an event of
  the trace that an operation returns.
\<close>

record ip_options =
  duration :: int
  repeat :: repeat_opt
  roundtrip :: bool
  easing :: "real \<Rightarrow> real"
  each :: bool
  update :: bool
  end_cb :: bool

datatype event = Each jsval | Update jsval | End "int option"

text \<open>\<open>defaultOptions.easing\<close>: \<open>(-Math.cos(pos*Math.PI)/2) + 0.5\<close>.\<close>

definition default_easing :: "real \<Rightarrow> real" where
  "default_easing pos = (- cos (pos * pi) / 2) + 0.5"

definition defaultOptions :: ip_options where
  "defaultOptions =
     \<lparr> duration = 1000, repeat = RBool False, roundtrip = False,
       easing = default_easing, each = False, update = False, end_cb = False \<rparr>"

subsection \<open>Instances\<close>

text \<open>
  The fields of an \<open>Ip\<close> instance. \<open>ip_from\<close>, \<open>ip_to\<close>, \<open>ip_start\<close>, \<open>ip_end\<close>, \<open>firstStart\<close>
  and \<open>pausedTs\<close> are the source's \<open>from\<close>, \<open>to\<close>, \<open>_start\<close>, \<open>end\<close>, \<open>_firstStart\<close> and \<open>_ts\<close>;
  \<open>None\<close> is \<open>null\<close>, or an absent property. \<open>phase\<close> is never initialised by the source,
  so it starts out \<open>undefined\<close> (\<open>None\<close>).

  The last two fields are the host's table of interval timers as far as this instance
  is concerned: \<open>live\<close> holds the handles that \<open>setInterval\<close> returned for this instance
  and that no \<open>clearInterval\<close> has cancelled, \<open>nextTimer\<close> is the next fresh handle.
\<close>

record ip =
  options :: ip_options
  ip_from :: jsval
  ip_to :: jsval
  phase :: "nat option"
  ip_start :: "int option"
  ip_end :: "int option"
  curr :: "jsval option"
  interval :: "nat option"
  paused :: bool
  running :: bool
  firstStart :: "int option"
  tripNr :: int
  wantedTrips :: int
  pausedTs :: "int option"
  live :: "nat list"
  nextTimer :: nat

definition setInterval :: "ip \<Rightarrow> ip" where
  "setInterval s =
     s\<lparr> interval := Some (nextTimer s), live := nextTimer s # live s,
        nextTimer := Suc (nextTimer s) \<rparr>"

definition clearInterval :: "nat option \<Rightarrow> ip \<Rightarrow> ip" where
  "clearInterval h s = (case h of None \<Rightarrow> s | Some t \<Rightarrow> s\<lparr> live := removeAll t (live s) \<rparr>)"

definition switchPhase :: "ip \<Rightarrow> ip" where
  "switchPhase s =
     s\<lparr> ip_to := ip_from s, ip_from := ip_to s,
        phase := (if phase s \<noteq> Some 2 then Some 2 else Some 1) \<rparr>"

text \<open>The number of trips that \<open>reset\<close> derives from the \<open>repeat\<close> option.\<close>

definition wanted_of :: "repeat_opt \<Rightarrow> int" where
  "wanted_of r =
     (case r of
        RBool b \<Rightarrow> (if b then - 1 else 1)
      | RNum n \<Rightarrow> (if 0 < n then n + 1 else 1)
      | ROther \<Rightarrow> 1)"

definition reset :: "ip \<Rightarrow> ip" where
  "reset s =
     s\<lparr> ip_start := None, ip_end := None, curr := None, interval := None,
        paused := False, running := False, firstStart := None,
        tripNr := 0, wantedTrips := wanted_of (repeat (options s)) \<rparr>"

text \<open>
  \<open>ip.create(from, to, options)\<close>, with \<open>options\<close> already merged with the defaults.
\<close>

definition create :: "jsval \<Rightarrow> jsval \<Rightarrow> ip_options \<Rightarrow> ip" where
  "create f t opts =
     reset \<lparr> options = opts, ip_from = f, ip_to = t, phase = None,
             ip_start = None, ip_end = None, curr = None, interval = None,
             paused = False, running = False, firstStart = None,
             tripNr = 0, wantedTrips = 1, pausedTs = None,
             live = [], nextTimer = 0 \<rparr>"

definition doStart :: "ip \<Rightarrow> ip" where
  "doStart s = (setInterval s)\<lparr> running := True \<rparr>"

text \<open>\<open>start()\<close>; \<open>ts\<close> is what \<open>getTs()\<close> returns.\<close>

definition start :: "int \<Rightarrow> ip \<Rightarrow> ip" where
  "start ts s =
     (if running s then s
      else doStart
             (s\<lparr> firstStart := (case firstStart s of None \<Rightarrow> Some ts | Some t \<Rightarrow> Some t),
                 ip_start := Some ts,
                 ip_end := Some (ts + duration (options s)) \<rparr>))"

definition pause :: "int \<Rightarrow> ip \<Rightarrow> ip" where
  "pause now s =
     (if paused s then s
      else s\<lparr> paused := True, running := False,
              pausedTs := Some (now - num_of (ip_start s)) \<rparr>)"

text \<open>
  \<open>resume()\<close> reads \<open>_ts\<close> only when \<open>paused\<close> is set, and \<open>paused\<close> is set by \<open>pause()\<close>
  alone, which stores \<open>_ts\<close> (lemma \<open>paused_has_ts\<close> below), so the read never finds the
  property absent.
\<close>

definition resume :: "int \<Rightarrow> ip \<Rightarrow> ip" where
  "resume now s =
     (if \<not> paused s then s
      else let st = now - num_of (pausedTs s) in
        doStart
          (s\<lparr> paused := False, running := True, ip_start := Some st,
              ip_end := Some (st + duration (options s)), pausedTs := None \<rparr>))"

definition checkEnd :: "ip \<Rightarrow> event list" where
  "checkEnd s = (if end_cb (options s) then [End (firstStart s)] else [])"

definition stop :: "ip \<Rightarrow> ip \<times> event list" where
  "stop s =
     (if \<not> running s then (s, [])
      else (reset (clearInterval (interval s) s), checkEnd s))"

subsection \<open>The tick procedure\<close>

text \<open>
  \<open>pos = now > instance.end ? 1 : (now - instance._start) / instance.options.duration\<close>
\<close>

definition work_pos :: "int \<Rightarrow> ip \<Rightarrow> jsnum" where
  "work_pos now s =
     (if num_of (ip_end s) < now then Num 1
      else js_div (now - num_of (ip_start s)) (duration (options s)))"

text \<open>
  \<open>Math.floor(from + (to - from) * easing(pos))\<close>. The arithmetic is that of the reals,
  which stand for the doubles of JavaScript: a value that depends on the rounding of a
  double can differ. An easing function is a function on the reals; at a \<open>pos\<close> that is
  not a finite number the result is \<open>NaN\<close>, which is what \<open>Math.cos\<close> in the default easing
  returns there (an easing of the caller could return something else).
\<close>

definition work_value :: "int \<Rightarrow> ip \<Rightarrow> jsval" where
  "work_value now s =
     (case (ip_from s, ip_to s, work_pos now s) of
        (IntV a, IntV b, Num p) \<Rightarrow>
          IntV \<lfloor>real_of_int a + real_of_int (b - a) * easing (options s) p\<rfloor>
      | _ \<Rightarrow> NaNV)"

definition checkUpdate :: "ip \<Rightarrow> jsval \<Rightarrow> ip \<times> event list" where
  "checkUpdate s v = (if js_neq (curr s) v then (s\<lparr> curr := Some v \<rparr>, [Update v]) else (s, []))"

text \<open>
  \<open>checkTripFinished\<close>; \<open>ts\<close> is what \<open>getTs()\<close> returns inside the \<open>start()\<close> of the next
  leg. \<open>++instance.tripNr\<close> is evaluated only when \<open>wantedTrips\<close> is not \<open>-1\<close>.
\<close>

definition checkTripFinished :: "int \<Rightarrow> int \<Rightarrow> ip \<Rightarrow> ip \<times> event list" where
  "checkTripFinished now ts s =
     (if num_of (ip_end s) < now then
        let s1 = (clearInterval (interval s) s)\<lparr> running := False \<rparr> in
        if roundtrip (options s1) \<and> phase s1 \<noteq> Some 2 then (start ts (switchPhase s1), [])
        else if wantedTrips s1 = - 1 then
          (start ts (if roundtrip (options s1) then switchPhase s1 else s1), [])
        else
          let s2 = s1\<lparr> tripNr := tripNr s1 + 1 \<rparr> in
          if tripNr s2 < wantedTrips s2 then
            (start ts (if roundtrip (options s2) then switchPhase s2 else s2), [])
          else (s2, checkEnd s2)
      else (s, []))"

definition work :: "int \<Rightarrow> int \<Rightarrow> ip \<Rightarrow> ip \<times> event list" where
  "work now ts s =
     (if paused s then (clearInterval (interval s) s, [])
      else
        let v = work_value now s;
            e1 = (if each (options s) then [Each v] else []);
            (s1, e2) = (if update (options s) then checkUpdate s v else (s, []));
            (s2, e3) = checkTripFinished now ts s1
        in (s2, e1 @ e2 @ e3))"

text \<open>
  A tick: one of the instance's live interval timers fires and calls \<open>work\<close>. With no
  live timer nothing runs.
\<close>

definition tick :: "int \<Rightarrow> int \<Rightarrow> ip \<Rightarrow> ip \<times> event list" where
  "tick now ts s = (if live s = [] then (s, []) else work now ts s)"



subsection \<open>Sequences of operations on one instance\<close>

datatype ip_op = Start int | Pause int | Resume int | Stop | Tick int int

fun apply_op :: "ip \<Rightarrow> ip_op \<Rightarrow> ip" where
  "apply_op s (Start ts) = start ts s"
| "apply_op s (Pause now) = pause now s"
| "apply_op s (Resume now) = resume now s"
| "apply_op s Stop = fst (stop s)"
| "apply_op s (Tick now ts) = fst (tick now ts s)"

definition exec :: "ip \<Rightarrow> ip_op list \<Rightarrow> ip" where
  "exec s ops = foldl apply_op s ops"

section \<open>The slider \<open>sslider\<close>\<close>

text \<open>
  The options that the navigation code reads: \<open>width\<close>, \<open>auto\<close>, \<open>interval\<close>,
  \<open>duration\<close> and \<open>legend\<close>.
\<close>

record sslider_options =
  width :: int
  opt_auto :: bool
  opt_interval :: int
  opt_duration :: int
  opt_legend :: bool

text \<open>
  A slider: \<open>options\<close>, \<open>maxIdx\<close>, the fields of \<open>_state\<close>, and the \<open>className\<close> of each
  legend item. \<open>useJsInterpolation\<close> is the capability the module probes once when it
  loads. \<open>anims\<close> are the interpolators that \<open>animate\<close> has created, in order of
  creation; \<open>timeouts\<close> are the pending timeouts of \<open>autoMove\<close>, each with its handle
  and the \<open>nextIdx\<close> its callback has captured, and \<open>nextTimeout\<close> is the next fresh
  handle.
\<close>

record sslider =
  soptions :: sslider_options
  maxIdx :: int
  currentIdx :: int
  left :: jsval
  timer :: "nat option"
  autoDir :: int
  userNavActive :: bool
  legend :: "string list"
  useJsInterpolation :: bool
  anims :: "ip list"
  timeouts :: "(nat \<times> int) list"
  nextTimeout :: nat

text \<open>What a method returns: the instance (for chaining) or \<open>undefined\<close>.\<close>

datatype ret = Undefined | Instance

datatype error = TypeError

definition setLeftPos :: "sslider \<Rightarrow> jsval \<Rightarrow> sslider" where
  "setLeftPos s val = s\<lparr> left := val \<rparr>"

text \<open>
  \<open>animate\<close>: with JavaScript interpolation, an interpolator from the current offset to
  the target, with the slider's \<open>duration\<close> and \<open>setLeftPos\<close> as its \<open>update\<close> callback,
  is created and started; otherwise \<open>animate\<close> is \<open>setLeftPos\<close> itself.
\<close>

definition animate :: "int \<Rightarrow> sslider \<Rightarrow> int \<Rightarrow> sslider" where
  "animate now s offset =
     (if useJsInterpolation s then
        s\<lparr> anims := anims s @
              [start now
                 (create (left s) (IntV offset)
                    (defaultOptions\<lparr> duration := opt_duration (soptions s), update := True \<rparr>))] \<rparr>
      else setLeftPos s (IntV offset))"

definition showIdx :: "int \<Rightarrow> int \<Rightarrow> sslider \<Rightarrow> sslider \<times> ret" where
  "showIdx now idx s =
     (if idx < 0 \<or> maxIdx s < idx then (s, Undefined)
      else
        let offset = - 1 * idx * width (soptions s);
            s1 = animate now s offset;
            s2 = s1\<lparr> currentIdx := idx \<rparr>;
            s3 = (if opt_legend (soptions s2) then
                    s2\<lparr> legend :=
                          map (\<lambda>idx2. if int idx2 = idx then ''selected'' else [])
                            [0 ..< length (legend s2)] \<rparr>
                  else s2)
        in (s3, Instance))"

definition sslider_prev :: "int \<Rightarrow> sslider \<Rightarrow> sslider \<times> ret" where
  "sslider_prev now s = showIdx now (currentIdx s - 1) s"

definition sslider_next :: "int \<Rightarrow> sslider \<Rightarrow> sslider \<times> ret" where
  "sslider_next now s = showIdx now (currentIdx s + 1) s"

text \<open>
  A call of a method on what an earlier call returned: on \<open>undefined\<close> the property
  access throws a \<open>TypeError\<close>.
\<close>

definition call_on :: "(sslider \<Rightarrow> sslider \<times> ret) \<Rightarrow> sslider \<times> ret \<Rightarrow> error + sslider \<times> ret" where
  "call_on m r = (case snd r of Undefined \<Rightarrow> Inl TypeError | Instance \<Rightarrow> Inr (m (fst r)))"

definition clearTimeout :: "nat option \<Rightarrow> sslider \<Rightarrow> sslider" where
  "clearTimeout h s =
     (case h of None \<Rightarrow> s | Some t \<Rightarrow> s\<lparr> timeouts := filter (\<lambda>p. fst p \<noteq> t) (timeouts s) \<rparr>)"

text \<open>
  \<open>autoMove\<close> computes \<open>nextIdx\<close> when it arms the timeout; the callback that it arms
  calls \<open>showIdx(nextIdx)\<close> and then \<open>autoMove\<close> again.
\<close>

definition autoMove :: "sslider \<Rightarrow> sslider" where
  "autoMove s =
     (let nextIdx = currentIdx s + autoDir s;
          s1 = (if maxIdx s < nextIdx \<or> nextIdx < 0 then s\<lparr> autoDir := autoDir s * - 1 \<rparr> else s);
          nextIdx1 = (if maxIdx s < nextIdx \<or> nextIdx < 0 then currentIdx s1 + autoDir s1
                      else nextIdx)
      in s1\<lparr> timer := Some (nextTimeout s1),
             timeouts := timeouts s1 @ [(nextTimeout s1, nextIdx1)],
             nextTimeout := Suc (nextTimeout s1) \<rparr>)"

text \<open>The timeout with handle \<open>h\<close> fires at time \<open>now\<close>.\<close>

definition fire :: "int \<Rightarrow> nat \<Rightarrow> sslider \<Rightarrow> sslider" where
  "fire now h s =
     (case map_of (timeouts s) h of
        None \<Rightarrow> s
      | Some nextIdx \<Rightarrow>
          autoMove (fst (showIdx now nextIdx
            (s\<lparr> timeouts := filter (\<lambda>p. fst p \<noteq> h) (timeouts s) \<rparr>))))"

text \<open>\<open>auto(auto)\<close>, the argument already defaulted to \<open>true\<close> and converted to a boolean.\<close>

definition sslider_auto :: "bool \<Rightarrow> sslider \<Rightarrow> sslider \<times> ret" where
  "sslider_auto a s =
     (let s1 = s\<lparr> soptions := (soptions s)\<lparr> opt_auto := a \<rparr> \<rparr>
      in (if a then autoMove s1 else clearTimeout (timer s1) s1, Instance))"

text \<open>
  The timeout that \<open>timer\<close> holds fires: one step of auto-cycling. The result carries
  the index that the step asked \<open>showIdx\<close> to show.
\<close>

definition auto_step :: "int \<Rightarrow> sslider \<Rightarrow> sslider \<times> int option" where
  "auto_step now s =
     (case timer s of
        None \<Rightarrow> (s, None)
      | Some h \<Rightarrow> (fire now h s, map_of (timeouts s) h))"

fun auto_steps :: "int list \<Rightarrow> sslider \<Rightarrow> sslider \<times> int option list" where
  "auto_steps [] s = (s, [])"
| "auto_steps (now # rest) s =
     (let (s1, v) = auto_step now s; (s2, vs) = auto_steps rest s1 in (s2, v # vs))"

text \<open>
  The constructor, for \<open>n\<close> images: it builds the state, shows index 0 and starts
  auto-cycling when the \<open>auto\<close> option asks for it.
\<close>

definition sslider_create :: "bool \<Rightarrow> int \<Rightarrow> nat \<Rightarrow> sslider_options \<Rightarrow> sslider" where
  "sslider_create js now n opts =
     (let s0 = \<lparr> soptions = opts, maxIdx = int n - 1, currentIdx = 0, left = IntV 0,
                 timer = None, autoDir = 1, userNavActive = False,
                 legend = (if opt_legend opts then replicate n [] else []),
                 useJsInterpolation = js, anims = [], timeouts = [], nextTimeout = 0 \<rparr>;
          s1 = fst (showIdx now 0 s0)
      in if opt_auto opts then fst (sslider_auto True s1) else s1)"

definition default_sslider_options :: sslider_options where
  "default_sslider_options =
     \<lparr> width = 300, opt_auto = False, opt_interval = 3000, opt_duration = 300,
       opt_legend = True \<rparr>"

text \<open>
  A tick of the \<open>i\<close>-th interpolator of the slider: its \<open>update\<close> callback is
  \<open>setLeftPos\<close>; \<open>each\<close> and \<open>end\<close> are not configured by \<open>animate\<close>.
\<close>

fun on_event :: "sslider \<Rightarrow> event \<Rightarrow> sslider" where
  "on_event s (Update v) = setLeftPos s v"
| "on_event s (Each v) = s"
| "on_event s (End t) = s"

definition anim_tick :: "nat \<Rightarrow> int \<Rightarrow> int \<Rightarrow> sslider \<Rightarrow> sslider" where
  "anim_tick i now ts s =
     (if i < length (anims s) then
        let (a, evs) = tick now ts (anims s ! i)
        in foldl on_event (s\<lparr> anims := (anims s)[i := a] \<rparr>) evs
      else s)"

text \<open>
  Ticks of the slider's interpolators, in the order in which their timers fire: each
  entry names the interpolator and gives the two timestamps of its tick.
\<close>

fun slider_run :: "sslider \<Rightarrow> (nat \<times> int \<times> int) list \<Rightarrow> sslider" where
  "slider_run s [] = s"
| "slider_run s ((i, now, ts) # rest) = slider_run (anim_tick i now ts s) rest"

section \<open>Notions used in the statements and proofs\<close>



text \<open>
  What \<open>work\<close> has done when it reaches \<open>checkTripFinished\<close>: the state and the
  callbacks invoked so far.
\<close>

definition emitted :: "int \<Rightarrow> ip \<Rightarrow> ip \<times> event list" where
  "emitted now s =
     (let v = work_value now s;
          r = (if update (options s) then checkUpdate s v else (s, []))
      in (fst r, (if each (options s) then [Each v] else []) @ snd r))"

text \<open>An instance that is running, not paused, and has exactly its own timer live.\<close>

definition ticking :: "ip \<Rightarrow> bool" where
  "ticking s \<longleftrightarrow>
     running s \<and> \<not> paused s \<and> (case interval s of None \<Rightarrow> False | Some h \<Rightarrow> live s = [h])"


text \<open>An instance and options for the examples.\<close>

definition example_options :: ip_options where
  "example_options = defaultOptions\<lparr> duration := 500, update := True, end_cb := True \<rparr>"

definition example_ip :: ip where
  "example_ip = create (IntV 0) (IntV 100) example_options"

text \<open>No pending timeout has the handle that \<open>setTimeout\<close> will return next.\<close>

definition fresh_handles :: "sslider \<Rightarrow> bool" where
  "fresh_handles s \<longleftrightarrow> (\<forall>p \<in> set (timeouts s). fst p < nextTimeout s)"

text \<open>The index that the timeout held by \<open>timer\<close> will show.\<close>

definition pending :: "sslider \<Rightarrow> int option" where
  "pending s = (case timer s of None \<Rightarrow> None | Some h \<Rightarrow> map_of (timeouts s) h)"

text \<open>
  What one step of auto-cycling does to the current index, the direction and the
  pending index, for a slider with last index \<open>mx\<close>.
\<close>

fun cycle :: "int \<Rightarrow> int \<times> int \<times> int \<Rightarrow> int \<times> int \<times> int" where
  "cycle mx (c, d, n) =
     (let c1 = (if n < 0 \<or> mx < n then c else n);
          d1 = (if mx < c1 + d \<or> c1 + d < 0 then - d else d)
      in (c1, d1, c1 + d1))"

definition cycling :: "int \<Rightarrow> int \<Rightarrow> int \<Rightarrow> int \<Rightarrow> sslider \<Rightarrow> bool" where
  "cycling mx c d n s \<longleftrightarrow>
     fresh_handles s \<and> maxIdx s = mx \<and> currentIdx s = c \<and> autoDir s = d \<and> pending s = Some n"

text \<open>A slider of five images with the default options, without and with JavaScript interpolation.\<close>

definition example_slider :: "bool \<Rightarrow> sslider" where
  "example_slider js = sslider_create js 0 5 default_sslider_options"




text \<open>
  The \<open>i\<close>-th interpolator of a slider is one that \<open>animate\<close> has started towards the
  offset \<open>off\<close>, it ends at \<open>e\<close>, and what it has emitted so far is the slider's offset.
\<close>

definition animating :: "nat \<Rightarrow> int \<Rightarrow> int \<Rightarrow> sslider \<Rightarrow> bool" where
  "animating i e off s \<longleftrightarrow>
     i < length (anims s) \<and> ticking (anims s ! i) \<and>
     ip_end (anims s ! i) = Some e \<and> ip_to (anims s ! i) = IntV off \<and>
     ip_from (anims s ! i) \<noteq> NaNV \<and>
     update (options (anims s ! i)) \<and> \<not> each (options (anims s ! i)) \<and>
     \<not> end_cb (options (anims s ! i)) \<and> \<not> roundtrip (options (anims s ! i)) \<and>
     easing (options (anims s ! i)) 1 = 1 \<and>
     wantedTrips (anims s ! i) = 1 \<and> tripNr (anims s ! i) = 0 \<and>
     (case curr (anims s ! i) of None \<Rightarrow> True | Some v \<Rightarrow> left s = v)"

text \<open>The \<open>i\<close>-th interpolator has stopped ticking and the offset is \<open>off\<close>.\<close>

definition settled :: "nat \<Rightarrow> int \<Rightarrow> sslider \<Rightarrow> bool" where
  "settled i off s \<longleftrightarrow> i < length (anims s) \<and> live (anims s ! i) = [] \<and> left s = IntV off"



text \<open>No interpolator of the slider has a live timer: no transition is in flight.\<close>

definition quiet :: "sslider \<Rightarrow> bool" where
  "quiet s \<longleftrightarrow> (\<forall>a \<in> set (anims s). live a = [])"

text \<open>The \<open>n\<close>-th interpolator is the last one and the only one that may have a live timer.\<close>

definition alone :: "nat \<Rightarrow> sslider \<Rightarrow> bool" where
  "alone n s \<longleftrightarrow> length (anims s) = Suc n \<and> (\<forall>j < n. live (anims s ! j) = [])"

text \<open>
  The example slider with JavaScript interpolation, after the interpolator that the
  constructor's \<open>showIdx(0)\<close> started has finished.
\<close>

definition rested_slider :: sslider where
  "rested_slider = anim_tick 0 301 301 (example_slider True)"

text \<open>The same for a slider whose \<open>duration\<close> option is 0.\<close>

definition nan_slider :: sslider where
  "nan_slider =
     anim_tick 0 1 1 (sslider_create True 0 5 (default_sslider_options\<lparr> opt_duration := 0 \<rparr>))"

section \<open>Facts about the interpolator\<close>

lemmas ip_defs = create_def reset_def start_def doStart_def setInterval_def clearInterval_def
  pause_def resume_def stop_def checkEnd_def num_of_def

lemmas tick_defs = tick_def work_def work_value_def work_pos_def checkUpdate_def
  checkTripFinished_def js_neq_def switchPhase_def Let_def

lemmas example_defs = example_ip_def example_options_def defaultOptions_def

lemma default_easing_0: "default_easing 0 = 0"
  by (simp add: default_easing_def)

lemma default_easing_1: "default_easing 1 = 1"
  by (simp add: default_easing_def)

lemma default_easing_mono:
  assumes "0 \<le> x" and "x \<le> y" and "y \<le> 1"
  shows "default_easing x \<le> default_easing y"
proof -
  have "0 \<le> x * pi" using assms by simp
  moreover have "x * pi \<le> y * pi" using assms by simp
  moreover have "y * pi \<le> pi" using assms by (simp add: mult_le_cancel_right1)
  ultimately have "cos (y * pi) \<le> cos (x * pi)"
    by (rule cos_monotone_0_pi_le)
  then show ?thesis by (simp add: default_easing_def)
qed




lemma work_emitted:
  "\<not> paused s \<Longrightarrow>
   work now ts s =
     (fst (checkTripFinished now ts (fst (emitted now s))),
      snd (emitted now s) @ snd (checkTripFinished now ts (fst (emitted now s))))"
  by (simp add: work_def emitted_def Let_def split: prod.splits)

lemma emitted_fields: "fst (emitted now s) = s\<lparr> curr := curr (fst (emitted now s)) \<rparr>"
  by (simp add: emitted_def Let_def checkUpdate_def)


lemma ticking_active: "ticking s \<Longrightarrow> live s \<noteq> [] \<and> \<not> paused s"
  by (auto simp: ticking_def split: option.splits)

lemma tick_continue:
  assumes "ticking s" and "\<not> num_of (ip_end s) < now"
  shows "fst (tick now ts s) = s\<lparr> curr := curr (fst (emitted now s)) \<rparr>"
    and "snd (tick now ts s) = snd (emitted now s)"
proof -
  note a = ticking_active [OF assms(1)]
  have e: "\<not> num_of (ip_end (fst (emitted now s))) < now"
    using assms(2) by (subst emitted_fields) simp
  show "fst (tick now ts s) = s\<lparr> curr := curr (fst (emitted now s)) \<rparr>"
    using a e emitted_fields [of now s] by (simp add: tick_def work_emitted checkTripFinished_def)
  show "snd (tick now ts s) = snd (emitted now s)"
    using a e by (simp add: tick_def work_emitted checkTripFinished_def)
qed

lemma tick_finish:
  assumes "ticking s" and "num_of (ip_end s) < now"
  shows "tick now ts s =
          (fst (checkTripFinished now ts (s\<lparr> curr := curr (fst (emitted now s)) \<rparr>)),
           snd (emitted now s) @
           snd (checkTripFinished now ts (s\<lparr> curr := curr (fst (emitted now s)) \<rparr>)))"
  using ticking_active [OF assms(1)] emitted_fields [of now s]
  by (simp add: tick_def work_emitted)

subsection \<open>A paused instance has its elapsed time stored\<close>

text \<open>
  \<open>resume()\<close> reads \<open>_ts\<close>; in every state that operations reach from a created
  instance, a paused instance has it.
\<close>

lemma apply_op_paused_ts:
  assumes "paused s \<longrightarrow> pausedTs s \<noteq> None"
  shows "paused (apply_op s x) \<longrightarrow> pausedTs (apply_op s x) \<noteq> None"
proof (cases x)
  case (Start ts)
  then show ?thesis using assms by (simp add: ip_defs)
next
  case (Pause now)
  then show ?thesis using assms by (simp add: ip_defs)
next
  case (Resume now)
  then show ?thesis using assms by (simp add: ip_defs Let_def)
next
  case Stop
  then show ?thesis using assms by (simp add: ip_defs)
next
  case (Tick now ts)
  then show ?thesis
    using assms
    by (auto simp add: tick_def work_def checkUpdate_def checkTripFinished_def switchPhase_def
        checkEnd_def Let_def start_def doStart_def setInterval_def clearInterval_def
        split: option.splits prod.splits if_splits)
qed

lemma paused_has_ts:
  "paused (exec (create f t opts) ops) \<longrightarrow> pausedTs (exec (create f t opts) ops) \<noteq> None"
proof (induction ops rule: rev_induct)
  case Nil
  show ?case by (simp add: exec_def ip_defs)
next
  case (snoc x ops)
  then show ?case
    using apply_op_paused_ts [of "exec (create f t opts) ops" x] by (simp add: exec_def)
qed

subsection \<open>Trip counting without roundtrip\<close>
















subsection \<open>The flags \<open>running\<close> and \<open>paused\<close>\<close>

text \<open>
  C6. The claim is that \<open>paused\<close> implies not \<open>running\<close> in every reachable state. After
  \<open>start()\<close>, \<open>pause()\<close>, \<open>start()\<close> both flags are set: \<open>start\<close> tests \<open>running\<close> alone and
  \<open>doStart\<close> sets \<open>running\<close> without clearing \<open>paused\<close>.
\<close>

theorem start_while_paused_sets_both_flags:
  "paused (exec example_ip [Start 0, Pause 100, Start 200]) \<and>
   running (exec example_ip [Start 0, Pause 100, Start 200])"
  by (simp add: exec_def example_defs ip_defs)




subsection \<open>Durations that are not positive\<close>

text \<open>
  C8, as the claim states it, fails: with duration 0 a tick at the start timestamp
  itself is not after \<open>end\<close>, so \<open>work\<close> evaluates the quotient \<open>0 / 0\<close>.
\<close>

theorem zero_duration_counterexample:
  "duration (options (start 0 (create (IntV 0) (IntV 100) (defaultOptions\<lparr> duration := 0 \<rparr>)))) = 0 \<and>
   ip_start (start 0 (create (IntV 0) (IntV 100) (defaultOptions\<lparr> duration := 0 \<rparr>))) = Some 0 \<and>
   work_pos 0 (start 0 (create (IntV 0) (IntV 100) (defaultOptions\<lparr> duration := 0 \<rparr>))) = NaN"
  by (simp add: work_pos_def js_div_def defaultOptions_def ip_defs)

text \<open>
  C8, amended. For a run started at \<open>t0\<close> with a duration that is not positive, a tick
  at a timestamp after \<open>t0\<close>, or at \<open>t0\<close> itself when the duration is negative, finds
  itself after \<open>end\<close>: \<open>pos\<close> is 1 and no quotient is evaluated.
\<close>

theorem nonpositive_duration_pos:
  "duration (options s) \<le> 0 \<Longrightarrow> \<not> running s \<Longrightarrow> t0 \<le> now \<Longrightarrow>
   t0 < now \<or> duration (options s) < 0 \<Longrightarrow>
   num_of (ip_end (start t0 s)) < now \<and> work_pos now (start t0 s) = Num 1"
  by (auto simp add: work_pos_def ip_defs)

theorem nonpositive_duration_pos_witness:
  "duration (options (create (IntV 0) (IntV 100) (defaultOptions\<lparr> duration := 0 \<rparr>))) \<le> 0 \<and>
   \<not> running (create (IntV 0) (IntV 100) (defaultOptions\<lparr> duration := 0 \<rparr>)) \<and>
   work_pos 1 (start 0 (create (IntV 0) (IntV 100) (defaultOptions\<lparr> duration := 0 \<rparr>))) = Num 1"
  using nonpositive_duration_pos [of "create (IntV 0) (IntV 100) (defaultOptions\<lparr> duration := 0 \<rparr>)" 0 1]
  by (simp add: defaultOptions_def ip_defs)

subsection \<open>Roundtrips that repeat forever\<close>






lemma checkUpdate_curr: "curr (fst (checkUpdate s v)) = Some v"
proof (cases "curr s")
  case None
  then show ?thesis by (simp add: checkUpdate_def js_neq_def)
next
  case (Some c)
  then show ?thesis
    by (cases c; cases v) (simp_all add: checkUpdate_def js_neq_def)
qed






subsection \<open>The default easing\<close>

text \<open>
  C9. The default easing \<open>pos \<mapsto> (-cos(pos * pi) / 2) + 0.5\<close> maps 0 to 0 and 1 to 1 and
  is monotonically non-decreasing on the interval from 0 to 1.
\<close>

theorem default_easing_endpoints_mono:
  "easing defaultOptions 0 = 0 \<and> easing defaultOptions 1 = 1 \<and>
   (\<forall>x y. 0 \<le> x \<and> x \<le> y \<and> y \<le> 1 \<longrightarrow> easing defaultOptions x \<le> easing defaultOptions y)"
  by (simp add: defaultOptions_def default_easing_0 default_easing_1 default_easing_mono)

theorem default_easing_endpoints_mono_witness:
  "(0::real) \<le> 1/4 \<and> (1/4::real) \<le> 3/4 \<and> (3/4::real) \<le> 1 \<and>
   easing defaultOptions (1/4) \<le> easing defaultOptions (3/4)"
  using default_easing_endpoints_mono by simp

section \<open>Facts about the slider\<close>

lemma anim_tick_unfold:
  "i < length (anims s) \<Longrightarrow>
   anim_tick i now ts s =
     foldl on_event (s\<lparr> anims := (anims s)[i := fst (tick now ts (anims s ! i))] \<rparr>)
       (snd (tick now ts (anims s ! i)))"
  by (simp add: anim_tick_def split: prod.splits)

lemma emitted_update_only:
  "update (options a) \<Longrightarrow> \<not> each (options a) \<Longrightarrow>
   emitted now a = checkUpdate a (work_value now a)"
  by (simp add: emitted_def Let_def)

lemma on_update:
  "foldl on_event s (snd (checkUpdate a v)) = (if js_neq (curr a) v then s\<lparr> left := v \<rparr> else s)"
  by (simp add: checkUpdate_def setLeftPos_def)

lemma not_js_neq: "\<not> js_neq c v \<Longrightarrow> c = Some v"
  by (cases c; cases v) (auto simp: js_neq_def split: jsval.splits)

lemma animating_continue:
  assumes "animating i e off s" and "\<not> e < now"
  shows "animating i e off (anim_tick i now ts s)"
    and "currentIdx (anim_tick i now ts s) = currentIdx s"
proof -
  define a where "a = anims s ! i"
  have i: "i < length (anims s)" and t: "ticking a" and e: "\<not> num_of (ip_end a) < now"
    and u: "update (options a)" "\<not> each (options a)"
    using assms by (simp_all add: animating_def a_def num_of_def)
  note c = tick_continue [OF t e, of ts]
  have em: "emitted now a = checkUpdate a (work_value now a)"
    by (rule emitted_update_only [OF u])
  have st: "anim_tick i now ts s =
      foldl on_event (s\<lparr> anims := (anims s)[i := a\<lparr> curr := Some (work_value now a) \<rparr>] \<rparr>)
        (snd (checkUpdate a (work_value now a)))"
    using i c by (simp add: anim_tick_unfold a_def [symmetric] em checkUpdate_curr)
  show "currentIdx (anim_tick i now ts s) = currentIdx s"
    by (simp add: st on_update)
  show "animating i e off (anim_tick i now ts s)"
  proof (cases "js_neq (curr a) (work_value now a)")
    case True
    then show ?thesis
      using assms(1) i
      by (auto simp add: st on_update animating_def a_def [symmetric] ticking_def
          split: option.splits)
  next
    case False
    then have "curr a = Some (work_value now a)" by (rule not_js_neq)
    then show ?thesis
      using assms(1) i False
      by (auto simp add: st on_update animating_def a_def [symmetric] ticking_def
          split: option.splits)
  qed
qed

lemma animating_finish:
  assumes "animating i e off s" and "e < now"
  shows "settled i off (anim_tick i now ts s)"
    and "currentIdx (anim_tick i now ts s) = currentIdx s"
proof -
  define a where "a = anims s ! i"
  have i: "i < length (anims s)" and t: "ticking a" and e: "num_of (ip_end a) < now"
    and u: "update (options a)" "\<not> each (options a)"
    and o: "\<not> end_cb (options a)" "\<not> roundtrip (options a)" "easing (options a) 1 = 1"
      "wantedTrips a = 1" "tripNr a = 0" "ip_to a = IntV off" "ip_from a \<noteq> NaNV"
    and l: "case curr a of None \<Rightarrow> True | Some v \<Rightarrow> left s = v"
    using assms by (simp_all add: animating_def a_def num_of_def)
  have v: "work_value now a = IntV off"
    using e o by (cases "ip_from a") (simp_all add: work_value_def work_pos_def)
  have em: "emitted now a = checkUpdate a (IntV off)"
    using emitted_update_only [OF u, of now] by (simp add: v)
  define a1 where "a1 = fst (checkTripFinished now ts (a\<lparr> curr := Some (IntV off) \<rparr>))"
  have tk: "tick now ts a = (a1, snd (checkUpdate a (IntV off)))"
    using o t e
    by (auto simp add: tick_finish [OF t e] em checkUpdate_curr a1_def checkTripFinished_def
        Let_def checkEnd_def clearInterval_def split: option.splits)
  have l1: "live a1 = []"
    using o t e
    by (auto simp add: a1_def checkTripFinished_def Let_def checkEnd_def clearInterval_def
        ticking_def split: option.splits)
  have st: "anim_tick i now ts s =
      foldl on_event (s\<lparr> anims := (anims s)[i := a1] \<rparr>) (snd (checkUpdate a (IntV off)))"
    using i by (simp add: anim_tick_unfold a_def [symmetric] tk)
  show "currentIdx (anim_tick i now ts s) = currentIdx s"
    by (simp add: st on_update)
  show "settled i off (anim_tick i now ts s)"
  proof (cases "js_neq (curr a) (IntV off)")
    case True
    then show ?thesis
      using i l1 by (simp add: st on_update settled_def)
  next
    case False
    then have "curr a = Some (IntV off)" by (rule not_js_neq)
    then show ?thesis
      using i l1 l False by (simp add: st on_update settled_def)
  qed
qed

lemma settled_tick: "settled i off s \<Longrightarrow> anim_tick i now ts s = s"
  by (simp add: settled_def anim_tick_def tick_def)

lemma showIdx_animating:
  assumes "0 \<le> idx" and "idx \<le> maxIdx s" and "useJsInterpolation s" and "left s \<noteq> NaNV"
  shows "animating (length (anims s)) (now + opt_duration (soptions s))
           (- idx * width (soptions s)) (fst (showIdx now idx s))"
    and "currentIdx (fst (showIdx now idx s)) = idx"
  using assms
  by (auto simp add: showIdx_def animate_def animating_def Let_def nth_append ticking_def
      ip_defs defaultOptions_def default_easing_1 wanted_of_def)

lemmas slider_defs = example_slider_def sslider_create_def default_sslider_options_def
  showIdx_def animate_def setLeftPos_def sslider_next_def sslider_prev_def Let_def

lemma fresh_map_of: "fresh_handles s \<Longrightarrow> map_of (timeouts s) (nextTimeout s) = None"
  by (force simp: fresh_handles_def map_of_eq_None_iff)

lemma fresh_filter:
  "fresh_handles s \<Longrightarrow> filter (\<lambda>p. fst p \<noteq> nextTimeout s) (timeouts s) = timeouts s"
  by (auto simp: fresh_handles_def filter_id_conv)

lemma autoMove_fields:
  "currentIdx (autoMove s) = currentIdx s"
  "maxIdx (autoMove s) = maxIdx s"
  "autoDir (autoMove s) =
        (if maxIdx s < currentIdx s + autoDir s \<or> currentIdx s + autoDir s < 0
         then - autoDir s else autoDir s)"
  "timer (autoMove s) = Some (nextTimeout s)"
  "nextTimeout (autoMove s) = Suc (nextTimeout s)"
  "timeouts (autoMove s) = timeouts s @ [(nextTimeout s,
      if maxIdx s < currentIdx s + autoDir s \<or> currentIdx s + autoDir s < 0
              then currentIdx s - autoDir s else currentIdx s + autoDir s)]"
  by (simp_all add: autoMove_def Let_def)

lemma auto_step_autoMove:
  assumes f: "fresh_handles s"
  shows "snd (auto_step now (autoMove s)) =
        Some (if maxIdx s < currentIdx s + autoDir s \<or> currentIdx s + autoDir s < 0
              then currentIdx s - autoDir s else currentIdx s + autoDir s)"
   and "fst (auto_step now (autoMove s)) =
        autoMove (fst (showIdx now
          (if maxIdx s < currentIdx s + autoDir s \<or> currentIdx s + autoDir s < 0
           then currentIdx s - autoDir s else currentIdx s + autoDir s)
          ((autoMove s)\<lparr> timeouts := timeouts s \<rparr>)))"
proof -
  show "snd (auto_step now (autoMove s)) =
        Some (if maxIdx s < currentIdx s + autoDir s \<or> currentIdx s + autoDir s < 0
              then currentIdx s - autoDir s else currentIdx s + autoDir s)"
    using fresh_map_of [OF f]
    by (simp add: auto_step_def autoMove_fields map_of_append map_add_def)
  show "fst (auto_step now (autoMove s)) =
        autoMove (fst (showIdx now
          (if maxIdx s < currentIdx s + autoDir s \<or> currentIdx s + autoDir s < 0
           then currentIdx s - autoDir s else currentIdx s + autoDir s)
          ((autoMove s)\<lparr> timeouts := timeouts s \<rparr>)))"
    using fresh_map_of [OF f] fresh_filter [OF f]
    by (simp add: auto_step_def fire_def autoMove_fields map_of_append map_add_def)
qed

lemma showIdx_keeps:
  "maxIdx (fst (showIdx now idx s)) = maxIdx s"
  "autoDir (fst (showIdx now idx s)) = autoDir s"
  "timer (fst (showIdx now idx s)) = timer s"
  "timeouts (fst (showIdx now idx s)) = timeouts s"
  "nextTimeout (fst (showIdx now idx s)) = nextTimeout s"
  by (simp_all add: showIdx_def animate_def setLeftPos_def Let_def)

lemma showIdx_currentIdx:
  "currentIdx (fst (showIdx now idx s)) = (if idx < 0 \<or> maxIdx s < idx then currentIdx s else idx)"
  by (simp add: showIdx_def animate_def setLeftPos_def Let_def)

lemma autoMove_fresh: "fresh_handles s \<Longrightarrow> fresh_handles (autoMove s)"
  by (auto simp: fresh_handles_def autoMove_fields less_Suc_eq)

lemma autoMove_pending:
  "fresh_handles s \<Longrightarrow>
   pending (autoMove s) =
     Some (if maxIdx s < currentIdx s + autoDir s \<or> currentIdx s + autoDir s < 0
           then currentIdx s - autoDir s else currentIdx s + autoDir s)"
  using fresh_map_of [of s]
  by (simp add: pending_def autoMove_fields map_of_append map_add_def)

lemma auto_step_cycle:
  assumes "fresh_handles s" and "pending s = Some n"
  shows "snd (auto_step now s) = Some n"
    and "fresh_handles (fst (auto_step now s))"
    and "maxIdx (fst (auto_step now s)) = maxIdx s"
    and "(currentIdx (fst (auto_step now s)), autoDir (fst (auto_step now s)),
          the (pending (fst (auto_step now s)))) = cycle (maxIdx s) (currentIdx s, autoDir s, n)"
    and "pending (fst (auto_step now s)) \<noteq> None"
proof -
  obtain h where h: "timer s = Some h" "map_of (timeouts s) h = Some n"
    using assms(2) by (auto simp: pending_def split: option.splits)
  define s1 where "s1 = fst (showIdx now n (s\<lparr> timeouts := filter (\<lambda>p. fst p \<noteq> h) (timeouts s) \<rparr>))"
  have st: "auto_step now s = (autoMove s1, Some n)"
    using h by (simp add: auto_step_def fire_def s1_def)
  have f1: "fresh_handles s1"
    using assms(1) by (auto simp: s1_def fresh_handles_def showIdx_keeps)
  show "snd (auto_step now s) = Some n" by (simp add: st)
  show "fresh_handles (fst (auto_step now s))" by (simp add: st autoMove_fresh [OF f1])
  show "maxIdx (fst (auto_step now s)) = maxIdx s"
    by (simp add: st autoMove_fields s1_def showIdx_keeps)
  have c1: "currentIdx s1 = (if n < 0 \<or> maxIdx s < n then currentIdx s else n)"
    and m1: "maxIdx s1 = maxIdx s" and d1: "autoDir s1 = autoDir s"
    by (simp_all add: s1_def showIdx_currentIdx showIdx_keeps)
  show "(currentIdx (fst (auto_step now s)), autoDir (fst (auto_step now s)),
          the (pending (fst (auto_step now s)))) = cycle (maxIdx s) (currentIdx s, autoDir s, n)"
    by (simp add: st autoMove_fields autoMove_pending [OF f1] c1 m1 d1 Let_def)
  show "pending (fst (auto_step now s)) \<noteq> None"
    by (simp add: st autoMove_pending [OF f1])
qed

lemma cycling_step:
  assumes "cycling mx c d n s" and "cycle mx (c, d, n) = (c1, d1, n1)"
  shows "cycling mx c1 d1 n1 (fst (auto_step now s))" and "snd (auto_step now s) = Some n"
proof -
  have f: "fresh_handles s" and p: "pending s = Some n"
    and e: "maxIdx s = mx" "currentIdx s = c" "autoDir s = d"
    using assms(1) by (simp_all add: cycling_def)
  note a = auto_step_cycle [OF f p, of now]
  have "the (pending (fst (auto_step now s))) = n1"
    and v: "currentIdx (fst (auto_step now s)) = c1" "autoDir (fst (auto_step now s)) = d1"
    using a(4) assms(2) unfolding e by simp_all
  then have "pending (fst (auto_step now s)) = Some n1"
    using a(5) by auto
  then show "cycling mx c1 d1 n1 (fst (auto_step now s))"
    using a(2,3) v e by (simp add: cycling_def)
  show "snd (auto_step now s) = Some n" by (rule a(1))
qed

lemma auto_steps_Cons:
  "fst (auto_steps (t # ts) s) = fst (auto_steps ts (fst (auto_step t s)))"
  "snd (auto_steps (t # ts) s) = snd (auto_step t s) # snd (auto_steps ts (fst (auto_step t s)))"
  by (simp_all split: prod.splits)

lemma sslider_create_cycling:
  assumes o: "\<not> opt_auto opts" and n: "2 \<le> n"
  shows "cycling (int n - 1) 0 1 1 (fst (sslider_auto True (sslider_create js t0 n opts)))"
proof -
  define s0 :: sslider where "s0 = \<lparr> soptions = opts, maxIdx = int n - 1, currentIdx = 0, left = IntV 0,
                 timer = None, autoDir = 1, userNavActive = False,
                 legend = (if opt_legend opts then replicate n [] else []),
                 useJsInterpolation = js, anims = [], timeouts = [], nextTimeout = 0 \<rparr>"
  define s1 where "s1 = fst (showIdx t0 0 s0)"
  define s2 where "s2 = s1\<lparr> soptions := (soptions s1)\<lparr> opt_auto := True \<rparr> \<rparr>"
  have c: "sslider_create js t0 n opts = s1"
    using o by (simp add: sslider_create_def s0_def s1_def)
  have a: "fst (sslider_auto True s1) = autoMove s2"
    by (simp add: sslider_auto_def s2_def)
  have f: "fresh_handles s2"
    by (simp add: fresh_handles_def s2_def s1_def showIdx_keeps s0_def)
  have v: "maxIdx s2 = int n - 1" "currentIdx s2 = 0" "autoDir s2 = 1"
    by (simp_all add: s2_def s1_def showIdx_keeps showIdx_currentIdx s0_def)
  show ?thesis
    using autoMove_fresh [OF f] autoMove_pending [OF f] n
    by (simp add: c a cycling_def autoMove_fields v)
qed

lemma example_trace:
  assumes "cycling 4 0 1 1 s"
  shows "snd (auto_steps [t1, t2, t3, t4, t5] s) = [Some 1, Some 2, Some 3, Some 4, Some 3]"
    and "autoDir (fst (auto_steps [t1, t2, t3] s)) = 1"
    and "autoDir (fst (auto_steps [t1, t2, t3, t4] s)) = - 1"
    and "currentIdx (fst (auto_steps [t1, t2, t3, t4] s)) = 4"
    and "currentIdx (fst (auto_steps [t1, t2, t3, t4, t5] s)) = 3"
proof -
  note s1 = cycling_step [OF assms, of 1 1 2 t1, simplified]
  note s2 = cycling_step [OF s1(1), of 2 1 3 t2, simplified]
  note s3 = cycling_step [OF s2(1), of 3 1 4 t3, simplified]
  note s4 = cycling_step [OF s3(1), of 4 "- 1" 3 t4, simplified]
  note s5 = cycling_step [OF s4(1), of 3 "- 1" 2 t5, simplified]
  show "snd (auto_steps [t1, t2, t3, t4, t5] s) = [Some 1, Some 2, Some 3, Some 4, Some 3]"
    by (simp only: auto_steps_Cons auto_steps.simps(1) s1(2) s2(2) s3(2) s4(2) s5(2) snd_conv)
  show "autoDir (fst (auto_steps [t1, t2, t3] s)) = 1"
    using s3(1) by (simp only: auto_steps_Cons auto_steps.simps(1) fst_conv cycling_def)
  show "autoDir (fst (auto_steps [t1, t2, t3, t4] s)) = - 1"
    using s4(1) by (simp only: auto_steps_Cons auto_steps.simps(1) fst_conv cycling_def)
  show "currentIdx (fst (auto_steps [t1, t2, t3, t4] s)) = 4"
    using s4(1) by (simp only: auto_steps_Cons auto_steps.simps(1) fst_conv cycling_def)
  show "currentIdx (fst (auto_steps [t1, t2, t3, t4, t5] s)) = 3"
    using s5(1) by (simp only: auto_steps_Cons auto_steps.simps(1) fst_conv cycling_def)
qed

lemma example_slider_fields:
  "maxIdx (example_slider js) = 4" "currentIdx (example_slider js) = 0"
  "autoDir (example_slider js) = 1" "left (example_slider js) = IntV 0"
  "useJsInterpolation (example_slider js) = js" "width (soptions (example_slider js)) = 300"
  "opt_duration (soptions (example_slider js)) = 300"
  "length (anims (example_slider js)) = (if js then 1 else 0)"
  "timeouts (example_slider js) = []"
  by (simp_all add: slider_defs)

lemmas anim_defs = anim_tick_def tick_defs ip_defs wanted_of_def js_div_def defaultOptions_def
  default_easing_1 setLeftPos_def

lemma rested_fields:
  "maxIdx rested_slider = 4" "currentIdx rested_slider = 0" "left rested_slider = IntV 0"
  "useJsInterpolation rested_slider" "width (soptions rested_slider) = 300"
  "opt_duration (soptions rested_slider) = 300" "length (anims rested_slider) = 1"
  "quiet rested_slider"
  by (simp_all add: rested_slider_def quiet_def slider_defs anim_defs)

lemma default_easing_half: "default_easing (1/2) = 1/2"
  by (simp add: default_easing_def)

lemma anims_on_events: "anims (foldl on_event s evs) = anims s"
proof (induction evs arbitrary: s)
  case Nil
  show ?case by simp
next
  case (Cons e evs)
  then show ?case by (cases e) (simp_all add: setLeftPos_def)
qed

lemma anim_tick_anims:
  "i < length (anims s) \<Longrightarrow>
   anims (anim_tick i now ts s) = (anims s)[i := fst (tick now ts (anims s ! i))]"
  by (simp add: anim_tick_unfold anims_on_events)

lemma anim_tick_idle:
  "i < length (anims s) \<longrightarrow> live (anims s ! i) = [] \<Longrightarrow> anim_tick i now ts s = s"
  by (simp add: anim_tick_def tick_def)

lemma quiet_run: "quiet s \<Longrightarrow> slider_run s ticks = s"
proof (induction ticks arbitrary: s)
  case Nil
  show ?case by simp
next
  case (Cons p ticks)
  obtain i now ts where p: "p = (i, now, ts)" by (cases p)
  have "anim_tick i now ts s = s"
    using Cons.prems by (intro anim_tick_idle) (simp add: quiet_def)
  then show ?case using Cons by (simp add: p)
qed

lemma alone_other_tick: "alone n s \<Longrightarrow> i \<noteq> n \<Longrightarrow> anim_tick i now ts s = s"
  by (intro anim_tick_idle) (auto simp: alone_def less_Suc_eq)

lemma alone_tick: "alone n s \<Longrightarrow> alone n (anim_tick n now ts s)"
  by (simp add: alone_def anim_tick_anims)

lemma settled_quiet: "settled n off s \<Longrightarrow> alone n s \<Longrightarrow> quiet s"
  by (auto simp: settled_def alone_def quiet_def in_set_conv_nth less_Suc_eq)

lemma animating_slider_run:
  assumes "animating n e off s" and "alone n s"
  shows "currentIdx (slider_run s ticks) = currentIdx s \<and>
         ((\<exists>p \<in> set ticks. fst p = n \<and> e < fst (snd p)) \<longrightarrow>
            left (slider_run s ticks) = IntV off \<and> quiet (slider_run s ticks))"
  using assms
proof (induction ticks arbitrary: s)
  case Nil
  then show ?case by simp
next
  case (Cons p ticks)
  obtain i now ts where p: "p = (i, now, ts)" by (cases p)
  show ?case
  proof (cases "i = n")
    case False
    have "anim_tick i now ts s = s"
      by (rule alone_other_tick [OF Cons.prems(2) False])
    then show ?thesis
      using Cons.IH [OF Cons.prems] False by (simp add: p)
  next
    case True
    note a = alone_tick [OF Cons.prems(2), of now ts]
    show ?thesis
    proof (cases "e < now")
      case False
      note c = animating_continue [OF Cons.prems(1) False, of ts]
      show ?thesis
        using Cons.IH [OF c(1) a] c(2) False True by (simp add: p)
    next
      case l: True
      note c = animating_finish [OF Cons.prems(1) l, of ts]
      note q = settled_quiet [OF c(1) a]
      show ?thesis
        using quiet_run [OF q, of ticks] c q True by (simp add: p settled_def)
    qed
  qed
qed

lemma showIdx_alone:
  assumes "0 \<le> idx" and "idx \<le> maxIdx s" and "useJsInterpolation s" and "quiet s"
  shows "alone (length (anims s)) (fst (showIdx now idx s))"
  using assms
  by (auto simp add: showIdx_def animate_def alone_def quiet_def Let_def nth_append)

lemma showIdx_shows:
  assumes "0 \<le> idx" and "idx \<le> maxIdx s"
  shows
    "snd (showIdx now idx s) = Instance \<and> currentIdx (fst (showIdx now idx s)) = idx \<and>
     (\<not> useJsInterpolation s \<longrightarrow>
        left (fst (showIdx now idx s)) = IntV (- idx * width (soptions s))) \<and>
     (useJsInterpolation s \<and> quiet s \<and> left s \<noteq> NaNV \<longrightarrow>
        (\<forall>ticks.
           currentIdx (slider_run (fst (showIdx now idx s)) ticks) = idx \<and>
           ((\<exists>p \<in> set ticks. fst p = length (anims s) \<and>
                 now + opt_duration (soptions s) < fst (snd p)) \<longrightarrow>
              left (slider_run (fst (showIdx now idx s)) ticks) =
                IntV (- idx * width (soptions s)))))"
proof (intro conjI impI allI)
  show "snd (showIdx now idx s) = Instance"
    using assms by (simp add: showIdx_def Let_def)
  show c: "currentIdx (fst (showIdx now idx s)) = idx"
    using assms by (simp add: showIdx_currentIdx)
  show "left (fst (showIdx now idx s)) = IntV (- idx * width (soptions s))"
    if "\<not> useJsInterpolation s"
    using assms that by (simp add: showIdx_def animate_def setLeftPos_def Let_def)
next
  fix ticks
  assume j: "useJsInterpolation s \<and> quiet s \<and> left s \<noteq> NaNV"
  then have j1: "useJsInterpolation s" and j2: "quiet s" and j3: "left s \<noteq> NaNV"
    by simp_all
  note a = showIdx_animating [OF assms j1 j3, of now]
  note r = animating_slider_run [OF a(1) showIdx_alone [OF assms j1 j2], of ticks]
  show "currentIdx (slider_run (fst (showIdx now idx s)) ticks) = idx"
    using r a by simp
  show "left (slider_run (fst (showIdx now idx s)) ticks) = IntV (- idx * width (soptions s))"
    if "\<exists>p \<in> set ticks. fst p = length (anims s) \<and>
          now + opt_duration (soptions s) < fst (snd p)"
    using r that by simp
qed

lemma example_shows:
  "left (fst (showIdx now 3 (example_slider False))) = IntV (- 900)"
  "(\<exists>p \<in> set ticks. fst p = 1 \<and> now + 300 < fst (snd p)) \<longrightarrow>
     left (slider_run (fst (showIdx now 3 rested_slider)) ticks) = IntV (- 900)"
  using showIdx_shows [of 3 "example_slider False" now]
    showIdx_shows [of 3 rested_slider now]
  by (simp_all add: example_slider_fields rested_fields del: slider_run.simps)

text \<open>
  C1, amended. For an index from 0 to the last one, \<open>showIdx\<close> returns the instance and
  sets \<open>currentIdx\<close> to the index. Without JavaScript interpolation the offset is
  \<open>-idx * width\<close> at once. With it, when no earlier transition is in flight and the
  offset is a number, then in every sequence of ticks that follows (of any of the
  slider's interpolators, with no further \<open>showIdx\<close> in between) \<open>currentIdx\<close> stays the
  index, and once the interpolator that \<open>showIdx\<close> starts has ticked after its end
  timestamp the offset is \<open>-idx * width\<close>. For five images of width 300, \<open>showIdx(3)\<close>
  ends at the offset -900, with either strategy.
\<close>

theorem showIdx_in_range:
  "(0 \<le> idx \<and> idx \<le> maxIdx s \<longrightarrow>
      snd (showIdx now idx s) = Instance \<and> currentIdx (fst (showIdx now idx s)) = idx \<and>
      (\<not> useJsInterpolation s \<longrightarrow>
         left (fst (showIdx now idx s)) = IntV (- idx * width (soptions s))) \<and>
      (useJsInterpolation s \<and> quiet s \<and> left s \<noteq> NaNV \<longrightarrow>
         (\<forall>ticks.
            currentIdx (slider_run (fst (showIdx now idx s)) ticks) = idx \<and>
            ((\<exists>p \<in> set ticks. fst p = length (anims s) \<and>
                  now + opt_duration (soptions s) < fst (snd p)) \<longrightarrow>
               left (slider_run (fst (showIdx now idx s)) ticks) =
                 IntV (- idx * width (soptions s)))))) \<and>
   left (fst (showIdx now 3 (example_slider False))) = IntV (- 900) \<and>
   (\<forall>ticks. (\<exists>p \<in> set ticks. fst p = 1 \<and> now + 300 < fst (snd p)) \<longrightarrow>
      left (slider_run (fst (showIdx now 3 rested_slider)) ticks) = IntV (- 900))"
  using showIdx_shows [of idx s now] example_shows [where now = now] by blast

theorem showIdx_in_range_witness:
  "(0::int) \<le> 2 \<and> 2 \<le> maxIdx (example_slider False) \<and> 2 \<le> maxIdx rested_slider \<and>
   currentIdx (fst (showIdx 0 2 (example_slider False))) = 2 \<and>
   left (fst (showIdx 0 2 (example_slider False))) = IntV (- 600) \<and>
   left (fst (showIdx 0 3 (example_slider False))) = IntV (- 900) \<and>
   useJsInterpolation rested_slider \<and> quiet rested_slider \<and> left rested_slider \<noteq> NaNV \<and>
   currentIdx (slider_run (fst (showIdx 1000 2 rested_slider))
     [(1, 1016, 1016), (0, 1016, 1016), (1, 1304, 1304)]) = 2 \<and>
   left (slider_run (fst (showIdx 1000 2 rested_slider))
     [(1, 1016, 1016), (0, 1016, 1016), (1, 1304, 1304)]) = IntV (- 600) \<and>
   left (slider_run (fst (showIdx 1000 3 rested_slider))
     [(1, 1016, 1016), (0, 1016, 1016), (1, 1304, 1304)]) = IntV (- 900)"
proof -
  have a: "left (fst (showIdx 0 2 (example_slider False))) = IntV (- 600) \<and>
      currentIdx (fst (showIdx 0 2 (example_slider False))) = 2 \<and>
      left (fst (showIdx 0 3 (example_slider False))) = IntV (- 900)"
    using showIdx_in_range [of 2 "example_slider False" 0] by (simp add: example_slider_fields)
  have "(\<forall>ticks.
      currentIdx (slider_run (fst (showIdx 1000 2 rested_slider)) ticks) = 2 \<and>
      ((\<exists>p \<in> set ticks. fst p = 1 \<and> 1300 < fst (snd p)) \<longrightarrow>
         left (slider_run (fst (showIdx 1000 2 rested_slider)) ticks) = IntV (- 600))) \<and>
     (\<forall>ticks. (\<exists>p \<in> set ticks. fst p = 1 \<and> 1300 < fst (snd p)) \<longrightarrow>
         left (slider_run (fst (showIdx 1000 3 rested_slider)) ticks) = IntV (- 900))"
    using showIdx_in_range [of 2 rested_slider 1000] by (simp add: rested_fields)
  then have b: "currentIdx (slider_run (fst (showIdx 1000 2 rested_slider))
        [(1, 1016, 1016), (0, 1016, 1016), (1, 1304, 1304)]) = 2 \<and>
      ((\<exists>p \<in> set [(1::nat, 1016::int, 1016::int), (0, 1016, 1016), (1, 1304, 1304)].
           fst p = 1 \<and> 1300 < fst (snd p)) \<longrightarrow>
         left (slider_run (fst (showIdx 1000 2 rested_slider))
           [(1, 1016, 1016), (0, 1016, 1016), (1, 1304, 1304)]) = IntV (- 600)) \<and>
      ((\<exists>p \<in> set [(1::nat, 1016::int, 1016::int), (0, 1016, 1016), (1, 1304, 1304)].
           fst p = 1 \<and> 1300 < fst (snd p)) \<longrightarrow>
         left (slider_run (fst (showIdx 1000 3 rested_slider))
           [(1, 1016, 1016), (0, 1016, 1016), (1, 1304, 1304)]) = IntV (- 900))"
    by blast
  have c: "\<exists>p \<in> set [(1::nat, 1016::int, 1016::int), (0, 1016, 1016), (1, 1304, 1304)].
      fst p = 1 \<and> 1300 < fst (snd p)"
    by simp
  show ?thesis
    using a b c by (simp add: example_slider_fields rested_fields del: slider_run.simps)
qed

text \<open>
  C1, as the claim states it, fails with JavaScript interpolation. When \<open>showIdx(1)\<close> and
  \<open>showIdx(0)\<close> follow each other, both interpolators write the offset: the second one
  writes 0 once, the first one goes on to -300, and the slider ends with \<open>currentIdx\<close> 0
  and the offset -300. And when the offset is \<open>NaN\<close> (here after a tick at the start
  timestamp of a transition with duration 0), a later \<open>showIdx(2)\<close> with nothing else in
  flight ends with the offset \<open>NaN\<close>.
\<close>

theorem overlapping_counterexample:
  "quiet rested_slider \<and> left rested_slider = IntV 0 \<and>
   currentIdx (slider_run (fst (showIdx 1000 0 (fst (showIdx 1000 1 rested_slider))))
     [(1, 1150, 1150), (2, 1150, 1150), (1, 1301, 1301), (2, 1301, 1301)]) = 0 \<and>
   left (slider_run (fst (showIdx 1000 0 (fst (showIdx 1000 1 rested_slider))))
     [(1, 1150, 1150), (2, 1150, 1150), (1, 1301, 1301), (2, 1301, 1301)]) = IntV (- 300) \<and>
   quiet (slider_run (fst (showIdx 1000 0 (fst (showIdx 1000 1 rested_slider))))
     [(1, 1150, 1150), (2, 1150, 1150), (1, 1301, 1301), (2, 1301, 1301)]) \<and>
   quiet (slider_run (fst (showIdx 10 3 (slider_run (fst (showIdx 10 1 nan_slider)) [(1, 10, 10)])))
     [(1, 26, 26), (2, 26, 26)]) \<and>
   left (slider_run (fst (showIdx 10 3 (slider_run (fst (showIdx 10 1 nan_slider)) [(1, 10, 10)])))
     [(1, 26, 26), (2, 26, 26)]) = NaNV \<and>
   currentIdx (slider_run (fst (showIdx 100 2
       (slider_run (fst (showIdx 10 3 (slider_run (fst (showIdx 10 1 nan_slider)) [(1, 10, 10)])))
          [(1, 26, 26), (2, 26, 26)])))
     [(3, 116, 116)]) = 2 \<and>
   left (slider_run (fst (showIdx 100 2
       (slider_run (fst (showIdx 10 3 (slider_run (fst (showIdx 10 1 nan_slider)) [(1, 10, 10)])))
          [(1, 26, 26), (2, 26, 26)])))
     [(3, 116, 116)]) = NaNV \<and>
   quiet (slider_run (fst (showIdx 100 2
       (slider_run (fst (showIdx 10 3 (slider_run (fst (showIdx 10 1 nan_slider)) [(1, 10, 10)])))
          [(1, 26, 26), (2, 26, 26)])))
     [(3, 116, 116)])"
  by (simp add: rested_slider_def nan_slider_def quiet_def slider_defs anim_defs default_easing_half)


text \<open>
  C2. For an index below 0 or above the last one, \<open>showIdx\<close> leaves the slider as it
  is, \<open>currentIdx\<close> and the offset included; so do \<open>next()\<close> at the last index and
  \<open>prev()\<close> at index 0.
\<close>

theorem showIdx_out_of_range_noop:
  "(idx < 0 \<or> maxIdx s < idx \<longrightarrow>
      currentIdx (fst (showIdx now idx s)) = currentIdx s \<and>
      left (fst (showIdx now idx s)) = left s \<and> fst (showIdx now idx s) = s) \<and>
   (currentIdx s = maxIdx s \<longrightarrow> fst (sslider_next now s) = s) \<and>
   (currentIdx s = 0 \<longrightarrow> fst (sslider_prev now s) = s)"
  by (simp add: showIdx_def sslider_next_def sslider_prev_def)

theorem showIdx_out_of_range_noop_witness:
  "maxIdx (example_slider False) < 5 \<and>
   fst (showIdx 0 5 (example_slider False)) = example_slider False \<and>
   fst (showIdx 0 (- 1) (example_slider False)) = example_slider False \<and>
   currentIdx (example_slider False) = 0 \<and>
   fst (sslider_prev 0 (example_slider False)) = example_slider False \<and>
   currentIdx (fst (showIdx 0 4 (example_slider False))) =
     maxIdx (fst (showIdx 0 4 (example_slider False))) \<and>
   fst (sslider_next 0 (fst (showIdx 0 4 (example_slider False)))) =
     fst (showIdx 0 4 (example_slider False))"
  using showIdx_out_of_range_noop [of 5 "example_slider False" 0]
    showIdx_out_of_range_noop [of "- 1" "example_slider False" 0]
    showIdx_out_of_range_noop [of 0 "fst (showIdx 0 4 (example_slider False))" 0]
  by (simp add: example_slider_fields showIdx_keeps showIdx_currentIdx)

text \<open>
  C10. For an index below 0 or above the last one, \<open>showIdx\<close> returns \<open>undefined\<close>, not
  the instance, so a call of \<open>next()\<close> chained onto it throws; \<open>prev()\<close> at index 0 and
  \<open>next()\<close> at the last index return \<open>undefined\<close> as well.
\<close>

theorem out_of_range_returns_undefined:
  "(idx < 0 \<or> maxIdx s < idx \<longrightarrow>
      snd (showIdx now idx s) = Undefined \<and>
      call_on (sslider_next now') (showIdx now idx s) = Inl TypeError) \<and>
   (currentIdx s = 0 \<longrightarrow> snd (sslider_prev now s) = Undefined) \<and>
   (currentIdx s = maxIdx s \<longrightarrow> snd (sslider_next now s) = Undefined)"
  by (simp add: showIdx_def sslider_next_def sslider_prev_def call_on_def)

theorem out_of_range_returns_undefined_witness:
  "maxIdx (example_slider False) < 7 \<and>
   snd (showIdx 0 7 (example_slider False)) = Undefined \<and>
   call_on (sslider_next 1) (showIdx 0 7 (example_slider False)) = Inl TypeError \<and>
   currentIdx (example_slider False) = 0 \<and>
   snd (sslider_prev 0 (example_slider False)) = Undefined \<and>
   currentIdx (fst (showIdx 0 4 (example_slider False))) =
     maxIdx (fst (showIdx 0 4 (example_slider False))) \<and>
   snd (sslider_next 0 (fst (showIdx 0 4 (example_slider False)))) = Undefined"
  using out_of_range_returns_undefined [of 7 "example_slider False" 0 1]
    out_of_range_returns_undefined [of 0 "fst (showIdx 0 4 (example_slider False))" 0 1]
  by (simp add: example_slider_fields showIdx_keeps showIdx_currentIdx)

text \<open>
  C5. When \<open>autoMove\<close> arms a step it leaves the current index alone, adds the
  direction to it, and, if the sum is below 0 or above the last index, flips the
  direction and adds the flipped direction to the same current index instead; the
  armed step calls \<open>showIdx\<close> with that index and then \<open>autoMove\<close> again. For five frames,
  starting at index 0 with direction +1, the steps ask for 1, 2, 3, 4 and 3; the
  direction is still +1 after the third step and -1 after the fourth, which shows
  index 4, and the fifth shows index 3.
\<close>

theorem autoMove_step:
  "(fresh_handles s \<longrightarrow>
      currentIdx (autoMove s) = currentIdx s \<and>
      autoDir (autoMove s) =
        (if maxIdx s < currentIdx s + autoDir s \<or> currentIdx s + autoDir s < 0
         then - autoDir s else autoDir s) \<and>
      snd (auto_step now (autoMove s)) =
        Some (if maxIdx s < currentIdx s + autoDir s \<or> currentIdx s + autoDir s < 0
              then currentIdx s - autoDir s else currentIdx s + autoDir s) \<and>
      fst (auto_step now (autoMove s)) =
        autoMove (fst (showIdx now
          (if maxIdx s < currentIdx s + autoDir s \<or> currentIdx s + autoDir s < 0
           then currentIdx s - autoDir s else currentIdx s + autoDir s)
          ((autoMove s)\<lparr> timeouts := timeouts s \<rparr>)))) \<and>
   snd (auto_steps [t1, t2, t3, t4, t5]
         (fst (sslider_auto True (sslider_create js t0 5 default_sslider_options)))) =
     [Some 1, Some 2, Some 3, Some 4, Some 3] \<and>
   autoDir (fst (auto_steps [t1, t2, t3]
         (fst (sslider_auto True (sslider_create js t0 5 default_sslider_options))))) = 1 \<and>
   autoDir (fst (auto_steps [t1, t2, t3, t4]
         (fst (sslider_auto True (sslider_create js t0 5 default_sslider_options))))) = - 1 \<and>
   currentIdx (fst (auto_steps [t1, t2, t3, t4]
         (fst (sslider_auto True (sslider_create js t0 5 default_sslider_options))))) = 4 \<and>
   currentIdx (fst (auto_steps [t1, t2, t3, t4, t5]
         (fst (sslider_auto True (sslider_create js t0 5 default_sslider_options))))) = 3"
proof -
  have "cycling (int 5 - 1) 0 1 1
      (fst (sslider_auto True (sslider_create js t0 5 default_sslider_options)))"
    by (rule sslider_create_cycling) (simp_all add: default_sslider_options_def)
  then have c: "cycling 4 0 1 1
      (fst (sslider_auto True (sslider_create js t0 5 default_sslider_options)))"
    by simp
  show ?thesis
    using example_trace(1) [OF c, of t1 t2 t3 t4 t5] example_trace(2) [OF c, of t1 t2 t3]
      example_trace(3,4) [OF c, of t1 t2 t3 t4] example_trace(5) [OF c, of t1 t2 t3 t4 t5]
      auto_step_autoMove [of s now] autoMove_fields(1,3) [of s]
    by blast
qed

theorem autoMove_step_witness:
  "fresh_handles (example_slider False) \<and>
   autoDir (autoMove (example_slider False)) = 1 \<and>
   snd (auto_step 3000 (autoMove (example_slider False))) = Some 1 \<and>
   fresh_handles (fst (showIdx 0 4 (example_slider False))) \<and>
   autoDir (autoMove (fst (showIdx 0 4 (example_slider False)))) = - 1 \<and>
   snd (auto_step 3000 (autoMove (fst (showIdx 0 4 (example_slider False))))) = Some 3"
proof -
  have f: "fresh_handles (example_slider False)"
    "fresh_handles (fst (showIdx 0 4 (example_slider False)))"
    by (simp_all add: fresh_handles_def showIdx_keeps example_slider_fields)
  show ?thesis
    using f autoMove_step [where s = "example_slider False" and now = 3000]
      autoMove_step [where s = "fst (showIdx 0 4 (example_slider False))" and now = 3000]
    by (simp add: example_slider_fields showIdx_keeps showIdx_currentIdx)
qed

end
